theory Spec2Isabelle
  imports Main "HOL-Library.Word"
begin

unbundle bit_operations_syntax

section \<open>Pill Duck: records, hex codec, bytecode decoder, pattern generator\<close>

text \<open>
  A shallow embedding of the Pill Duck firmware (main.c, hex\_utils.c, flash.c, cdcacm.c).
  A C call that has no defined result is the value \<open>None\<close>: an access outside
  a buffer, or a loop that never ends.
\<close>

type_synonym byte = "8 word"

subsection \<open>hid.h: struct composite\_report\<close>

text \<open>
  The packed 16-byte struct: \<open>report_id\<close> and a 15-byte union. The union is
  its raw member \<open>padding\<close>, indexed by byte offset; the members of
  \<open>mouse\<close> and \<open>keyboard\<close> are offsets into it.
\<close>

record composite_report =
  report_id :: byte
  padding :: "nat \<Rightarrow> byte"

definition REPORT_ID_NOP :: byte where "REPORT_ID_NOP = 0"
definition REPORT_ID_KEYBOARD :: byte where "REPORT_ID_KEYBOARD = 1"
definition REPORT_ID_MOUSE :: byte where "REPORT_ID_MOUSE = 2"
definition REPORT_ID_DELAY :: byte where "REPORT_ID_DELAY = 254"
definition REPORT_ID_END :: byte where "REPORT_ID_END = 255"

definition mouse_buttons :: nat where "mouse_buttons = 0"
definition mouse_x :: nat where "mouse_x = 1"
definition mouse_y :: nat where "mouse_y = 2"
definition mouse_wheel :: nat where "mouse_wheel = 3"
definition keyboard_modifiers :: nat where "keyboard_modifiers = 0"
definition keyboard_reserved :: nat where "keyboard_reserved = 1"
definition keyboard_keys_down :: "nat \<Rightarrow> nat" where "keyboard_keys_down i = 2 + i"
definition keyboard_leds :: nat where "keyboard_leds = 8"

definition set_id :: "byte \<Rightarrow> composite_report \<Rightarrow> composite_report" where
  "set_id v r = r\<lparr>report_id := v\<rparr>"

definition set_field :: "nat \<Rightarrow> byte \<Rightarrow> composite_report \<Rightarrow> composite_report" where
  "set_field off v r = r\<lparr>padding := (padding r)(off := v)\<rparr>"

definition report_bytes :: "composite_report \<Rightarrow> byte list" where
  "report_bytes r =
     report_id r # map (padding r) [0, 1, 2, 3, 4, 5, 6, 7, 8, 9, 10, 11, 12, 13, 14]"

definition zero_report :: composite_report where
  "zero_report = \<lparr>report_id = 0, padding = (\<lambda>_. 0)\<rparr>"

text \<open>
  \<open>out[j].field = v\<close> on an array of records: the write is defined only inside
  the array.
\<close>

definition store_at ::
  "composite_report list \<Rightarrow> nat \<Rightarrow> (composite_report \<Rightarrow> composite_report)
     \<Rightarrow> composite_report list option" where
  "store_at out j f = (if j < length out then Some (out[j := f (out ! j)]) else None)"

subsection \<open>hex\_utils.c\<close>

definition hexdigits :: string where
  "hexdigits = ''0123456789abcdef''"

fun hexify :: "byte list \<Rightarrow> string" where
  "hexify [] = []"
| "hexify (b # bs) =
     hexdigits ! unat (drop_bit 4 b) # hexdigits ! unat (b AND 0xF) # hexify bs"

definition unhex_digit :: "byte \<Rightarrow> byte" where
  "unhex_digit hex =
     (let tmp = hex - 0x30;
          tmp = (if tmp > 9 then tmp - 7 else tmp);
          tmp = (if tmp > 16 then tmp - 32 else tmp)
      in tmp)"

text \<open>
  \<open>unhexify hex size\<close>: \<open>hex\<close> is the memory from the pointer to the end of
  its buffer; the result is the \<open>size\<close> bytes written to \<open>buf\<close>. Each byte
  consumes two characters.
\<close>

fun unhexify :: "byte list \<Rightarrow> nat \<Rightarrow> byte list option" where
  "unhexify hex 0 = Some []"
| "unhexify (h # l # hex) (Suc n) =
     (case unhexify hex n of
        None \<Rightarrow> None
      | Some bs \<Rightarrow> Some ((push_bit 4 (unhex_digit h) OR unhex_digit l) # bs))"
| "unhexify _ (Suc n) = None"

subsection \<open>main.c: convert\_ducky\_binary\<close>

definition delay_record :: "byte \<Rightarrow> composite_report \<Rightarrow> composite_report" where
  "delay_record d r = set_field 0 d (set_id REPORT_ID_DELAY r)"

definition key_record :: "byte \<Rightarrow> byte \<Rightarrow> composite_report \<Rightarrow> composite_report" where
  "key_record mods key r =
     set_field keyboard_leds 0
      (set_field (keyboard_keys_down 5) 0
       (set_field (keyboard_keys_down 4) 0
        (set_field (keyboard_keys_down 3) 0
         (set_field (keyboard_keys_down 2) 0
          (set_field (keyboard_keys_down 1) 0
           (set_field (keyboard_keys_down 0) key
            (set_field keyboard_reserved 1
             (set_field keyboard_modifiers mods
              (set_id REPORT_ID_KEYBOARD r)))))))))"

function ducky_loop ::
  "byte list \<Rightarrow> int \<Rightarrow> int \<Rightarrow> nat \<Rightarrow> composite_report list
     \<Rightarrow> (nat \<times> composite_report list) option" where
  "ducky_loop buf len i j out =
     (if i < len then
        (if 0 \<le> i \<and> nat i + 1 < length buf then
           (let word = (ucast (buf ! nat i) :: 16 word)
                         OR push_bit 8 (ucast (buf ! (nat i + 1)))
            in if word AND 0xff = 0 then
                 (case store_at out j (delay_record (ucast (drop_bit 8 word))) of
                    None \<Rightarrow> None
                  | Some out1 \<Rightarrow> ducky_loop buf len (i + 2) (j + 1) out1)
               else
                 (case store_at out j
                         (key_record (ucast (drop_bit 8 word)) (ucast (word AND 0xff))) of
                    None \<Rightarrow> None
                  | Some out1 \<Rightarrow>
                      (case store_at out1 (j + 1) (key_record 0 0) of
                         None \<Rightarrow> None
                       | Some out2 \<Rightarrow> ducky_loop buf len (i + 2) (j + 2) out2)))
         else None)
      else Some (j, out))"
  by pat_completeness auto
termination
  by (relation "measure (\<lambda>(buf, len, i, j, out). nat (len - i))") auto

declare ducky_loop.simps [simp del]

definition convert_ducky_binary ::
  "byte list \<Rightarrow> int \<Rightarrow> composite_report list \<Rightarrow> (nat \<times> composite_report list) option" where
  "convert_ducky_binary buf len out =
     (let len = (if len mod 2 \<noteq> 0 then len - 1 else len)
      in case ducky_loop buf len 0 0 out of
           None \<Rightarrow> None
         | Some (j, out1) \<Rightarrow>
             (case store_at out1 j (set_id REPORT_ID_END) of
                None \<Rightarrow> None
              | Some out2 \<Rightarrow> Some (j + 1, out2)))"

subsection \<open>main.c: add\_mouse\_jiggler\<close>

definition mouse_record :: "byte \<Rightarrow> composite_report \<Rightarrow> composite_report" where
  "mouse_record dx r =
     set_field mouse_wheel 0
      (set_field mouse_y 0
       (set_field mouse_x dx
        (set_field mouse_buttons 0
         (set_id REPORT_ID_MOUSE r))))"

function jiggle_loop ::
  "byte \<Rightarrow> int \<Rightarrow> int \<Rightarrow> nat \<Rightarrow> composite_report list
     \<Rightarrow> (nat \<times> composite_report list) option" where
  "jiggle_loop dx width i j pb =
     (if i < width then
        (case store_at pb j (mouse_record dx) of
           None \<Rightarrow> None
         | Some pb1 \<Rightarrow> jiggle_loop dx width (i + 1) (j + 1) pb1)
      else Some (j, pb))"
  by pat_completeness auto
termination
  by (relation "measure (\<lambda>(dx, width, i, j, pb). nat (width - i))") auto

declare jiggle_loop.simps [simp del]

text \<open>
  \<open>packet_buffer\<close> is the global scratch array of \<open>1024 / 16 = 64\<close> records;
  it is passed in and returned. The C \<open>x = -1\<close> stored in a \<open>uint8_t\<close> is
  \<open>0xFF\<close>.
\<close>

definition add_mouse_jiggler ::
  "int \<Rightarrow> composite_report list \<Rightarrow> (nat \<times> composite_report list) option" where
  "add_mouse_jiggler width pb =
     (case jiggle_loop 1 width 0 0 pb of
        None \<Rightarrow> None
      | Some (j, pb1) \<Rightarrow>
          (case jiggle_loop (- 1) width 0 j pb1 of
             None \<Rightarrow> None
           | Some (j, pb2) \<Rightarrow>
               (case store_at pb2 j (set_id REPORT_ID_END) of
                  None \<Rightarrow> None
                | Some pb3 \<Rightarrow> Some (j + 1, pb3))))"

section \<open>flash.c: the persistent script store\<close>

text \<open>
  The medium below \<open>flash.c\<close> is libopencm3 and the STM32 flash controller. It is a
  parameter: a state \<open>'m\<close> of the medium and the operations the firmware calls on it.
  \<open>flash_peek\<close> is a read of one byte of memory-mapped flash.
  \<open>FLASH_SR_EOP\<close> is libopencm3's end-of-operation flag, \<open>user_data_addr\<close>
  the linker's address of \<open>user_data\<close>, and \<open>FIRMWARE_VERSION\<close> the string of
  the generated version.h.
\<close>

record 'm env =
  flash_unlock :: "'m \<Rightarrow> 'm"
  flash_erase_page :: "32 word \<Rightarrow> 'm \<Rightarrow> 'm"
  flash_get_status_flags :: "'m \<Rightarrow> 32 word"
  flash_program_word :: "32 word \<Rightarrow> 32 word \<Rightarrow> 'm \<Rightarrow> 'm"
  flash_peek :: "'m \<Rightarrow> 32 word \<Rightarrow> byte"
  FLASH_SR_EOP :: "32 word"
  user_data_addr :: "32 word"
  FIRMWARE_VERSION :: string

definition FLASH_PAGE_SIZE :: "32 word" where "FLASH_PAGE_SIZE = 0x400"
definition FLASH_WRONG_DATA_WRITTEN :: "32 word" where "FLASH_WRONG_DATA_WRITTEN = 0x80"
definition RESULT_OK :: "32 word" where "RESULT_OK = 0"

definition le32 :: "byte \<Rightarrow> byte \<Rightarrow> byte \<Rightarrow> byte \<Rightarrow> 32 word" where
  "le32 b0 b1 b2 b3 =
     ucast b0 OR push_bit 8 (ucast b1) OR push_bit 16 (ucast b2) OR push_bit 24 (ucast b3)"

definition word_bytes :: "32 word \<Rightarrow> byte list" where
  "word_bytes w = [ucast w, ucast (drop_bit 8 w), ucast (drop_bit 16 w), ucast (drop_bit 24 w)]"

text \<open>\<open>*((uint32_t*)(input_data + iter))\<close>, a little-endian read from a RAM buffer.\<close>

definition input_word :: "byte list \<Rightarrow> nat \<Rightarrow> 32 word option" where
  "input_word input_data iter =
     (if iter + 3 < length input_data
      then Some (le32 (input_data ! iter) (input_data ! (iter + 1))
                      (input_data ! (iter + 2)) (input_data ! (iter + 3)))
      else None)"

text \<open>\<open>*((uint32_t*)address)\<close>, a little-endian read from flash.\<close>

definition read32 :: "'m env \<Rightarrow> 'm \<Rightarrow> 32 word \<Rightarrow> 32 word" where
  "read32 e m a =
     le32 (flash_peek e m a) (flash_peek e m (a + 1)) (flash_peek e m (a + 2))
          (flash_peek e m (a + 3))"

text \<open>
  The programming loop. \<open>iter\<close> is a \<open>uint16_t\<close>: \<open>iter += 4\<close> wraps at
  \<open>65536\<close>, so for \<open>num_elements > 65532\<close> the loop need not end.
\<close>

partial_function (option) flash_program_loop ::
  "'m env \<Rightarrow> 32 word \<Rightarrow> byte list \<Rightarrow> nat \<Rightarrow> nat \<Rightarrow> 'm \<Rightarrow> (32 word \<times> 'm) option" where
  "flash_program_loop e current_address input_data num_elements iter m =
     (if iter < num_elements then
        (case input_word input_data iter of
           None \<Rightarrow> None
         | Some w \<Rightarrow>
             (let m1 = flash_program_word e (current_address + of_nat iter) w m;
                  flash_status = flash_get_status_flags e m1
              in if flash_status \<noteq> FLASH_SR_EOP e then Some (flash_status, m1)
                 else if read32 e m1 (current_address + of_nat iter) \<noteq> w
                 then Some (FLASH_WRONG_DATA_WRITTEN, m1)
                 else flash_program_loop e current_address input_data num_elements
                        ((iter + 4) mod 65536) m1))
      else Some (RESULT_OK, m))"

definition flash_program_data ::
  "'m env \<Rightarrow> 32 word \<Rightarrow> byte list \<Rightarrow> 16 word \<Rightarrow> 'm \<Rightarrow> (32 word \<times> 'm) option" where
  "flash_program_data e start_address input_data num_elements m =
     (let page_address =
            (if start_address mod FLASH_PAGE_SIZE \<noteq> 0
             then start_address - start_address mod FLASH_PAGE_SIZE else start_address);
          m1 = flash_erase_page e page_address (flash_unlock e m);
          flash_status = flash_get_status_flags e m1
      in if flash_status \<noteq> FLASH_SR_EOP e then Some (flash_status, m1)
         else flash_program_loop e start_address input_data (unat num_elements) 0 m1)"

text \<open>The bytes \<open>flash_read_data\<close> writes to \<open>output_data\<close>.\<close>

definition flash_read_data :: "'m env \<Rightarrow> 'm \<Rightarrow> 32 word \<Rightarrow> 16 word \<Rightarrow> byte list" where
  "flash_read_data e m start_address num_elements =
     concat (map (\<lambda>iter. word_bytes (read32 e m (start_address + 4 * of_nat iter)))
                 [0..<unat num_elements div 4])"

section \<open>main.c: the execution engine\<close>

text \<open>
  The globals of main.c and cdcacm.c, with the two devices the engine drives: the LED
  on PC13 and the HID endpoint 0x81. \<open>usb_ret\<close> holds the values the coming calls of
  \<open>usbd_ep_write_packet\<close> on that endpoint return (0 is "buffer full"), and
  \<open>hid_out\<close> the packets it has accepted. \<open>delay_ticks_remaining\<close> is a C
  \<open>int\<close> that the code loads from one byte and decrements while it is positive, so
  it is an integer here.
\<close>

record 'm machine =
  report_index :: "32 word"
  paused :: bool
  single_step :: bool
  delaying :: bool
  delay_ticks_remaining :: int
  packet_buffer :: "composite_report list"
  flash :: 'm
  led :: bool
  usb_ret :: "16 word list"
  hid_out :: "byte list list"
  typing_buf :: "byte list"
  typing_index :: nat

text \<open>
  \<open>user_data[i]\<close>: sixteen bytes of flash at \<open>user_data_addr + 16 * i\<close>. The read
  is a read of memory-mapped flash at that address; the bound the array is declared
  with plays no part in it.
\<close>

definition user_data :: "'m env \<Rightarrow> 'm \<Rightarrow> 32 word \<Rightarrow> composite_report" where
  "user_data e m i =
     \<lparr>report_id = flash_peek e m (user_data_addr e + 16 * i),
      padding = (\<lambda>k. if k < 15 then flash_peek e m (user_data_addr e + 16 * i + 1 + of_nat k)
                      else 0)\<rparr>"

text \<open>
  \<open>do bytes_written = usbd_ep_write_packet(...) while (bytes_written == 0)\<close>:
  the answers left once one is not 0, or \<open>None\<close> when none of them is.
\<close>

fun write_until_accepted :: "16 word list \<Rightarrow> 16 word list option" where
  "write_until_accepted [] = None"
| "write_until_accepted (bytes_written # rest) =
     (if bytes_written = 0 then write_until_accepted rest else Some rest)"

text \<open>The tail of \<open>sys_tick_handler\<close>, from the send loop to the end.\<close>

definition send_report :: "composite_report \<Rightarrow> nat \<Rightarrow> 'm machine \<Rightarrow> 'm machine option" where
  "send_report report len s =
     (case write_until_accepted (usb_ret s) of
        None \<Rightarrow> None
      | Some rest \<Rightarrow>
          (let s1 = s\<lparr>usb_ret := rest,
                      hid_out := hid_out s @ [take len (report_bytes report)],
                      led := \<not> led s\<rparr>;
               s2 = (if single_step s1 then s1\<lparr>single_step := False, paused := True\<rparr> else s1)
           in Some (s2\<lparr>report_index := report_index s2 + 1\<rparr>)))"

definition sys_tick_handler :: "'m env \<Rightarrow> 'm machine \<Rightarrow> 'm machine option" where
  "sys_tick_handler e s =
     (if paused s \<and> \<not> single_step s then Some s
      else
        (let report = user_data e (flash s) (report_index s);
             ident = report_id report
         in if ident = REPORT_ID_NOP then Some s
            else if ident = REPORT_ID_DELAY then
              (if \<not> delaying s then
                 Some (s\<lparr>delay_ticks_remaining := uint (padding report 0), delaying := True\<rparr>)
               else
                 (let s1 = s\<lparr>delay_ticks_remaining := delay_ticks_remaining s - 1\<rparr>
                  in if delay_ticks_remaining s1 \<le> 0
                     then Some (s1\<lparr>delaying := False, report_index := report_index s1 + 1\<rparr>)
                     else Some s1))
            else if ident = REPORT_ID_KEYBOARD then send_report report 9 s
            else if ident = REPORT_ID_MOUSE then send_report report 5 s
            else Some (s\<lparr>report_index := 0\<rparr>)))"

text \<open>\<open>n\<close> consecutive ticks.\<close>

fun ticks :: "nat \<Rightarrow> 'm env \<Rightarrow> 'm machine \<Rightarrow> 'm machine option" where
  "ticks 0 e s = Some s"
| "ticks (Suc n) e s =
     (case sys_tick_handler e s of None \<Rightarrow> None | Some s1 \<Rightarrow> ticks n e s1)"

section \<open>main.c and cdcacm.c: the command processor\<close>

definition flash_reply :: "32 word \<Rightarrow> string" where
  "flash_reply result =
     (if result = RESULT_OK then ''wrote flash''
      else if result = FLASH_WRONG_DATA_WRITTEN then ''wrong data written''
      else ''error writing flash'')"

text \<open>
  \<open>process_serial_command buf len\<close>. \<open>buf\<close> is the caller's whole buffer, so
  \<open>&buf[1]\<close> is its tail. The characters are bytes:
  \<open>v\<close> 0x76, \<open>?\<close> 0x3F, \<open>w\<close> 0x77, \<open>d\<close> 0x64, \<open>j\<close> 0x6A, \<open>r\<close> 0x72,
  \<open>@\<close> 0x40, \<open>p\<close> 0x70, \<open>s\<close> 0x73, \<open>z\<close> 0x7A.
  In the write branch \<open>binary\<close> is the local array of 1024 zero bytes that
  \<open>unhexify\<close> fills from its start; a negative \<open>len\<close> converts to a
  \<open>size_t\<close> larger than any buffer. The terminating NUL that \<open>hexify\<close> writes
  behind the reply is not part of the reply.
\<close>

definition process_serial_command ::
  "'m env \<Rightarrow> byte list \<Rightarrow> int \<Rightarrow> 'm machine \<Rightarrow> (string \<times> 'm machine) option" where
  "process_serial_command e buf len s =
     (case buf of
        [] \<Rightarrow> None
      | c # hex \<Rightarrow>
          if c = 0x76 then Some (''Pill Duck version '' @ FIRMWARE_VERSION e, s)
          else if c = 0x3F then Some (''see source code for help'', s)
          else if c = 0x77 \<or> c = 0x64 then
            (if len < 0 \<or> 1024 < len then None
             else
               (case unhexify hex (nat len) of
                  None \<Rightarrow> None
                | Some bs \<Rightarrow>
                    (let binary = bs @ replicate (1024 - length bs) 0;
                         binary_len = len div 2
                     in if c = 0x64 then
                          (case convert_ducky_binary binary binary_len (packet_buffer s) of
                             None \<Rightarrow> None
                           | Some (records, pb) \<Rightarrow>
                               (case flash_program_data e (user_data_addr e)
                                       (concat (map report_bytes pb))
                                       (word_of_int (int records * 16)) (flash s) of
                                  None \<Rightarrow> None
                                | Some (result, m) \<Rightarrow>
                                    Some (flash_reply result,
                                          s\<lparr>packet_buffer := pb, flash := m\<rparr>)))
                        else
                          (case flash_program_data e (user_data_addr e) binary
                                  (word_of_int binary_len) (flash s) of
                             None \<Rightarrow> None
                           | Some (result, m) \<Rightarrow> Some (flash_reply result, s\<lparr>flash := m\<rparr>)))))
          else if c = 0x6A then
            (case add_mouse_jiggler 30 (packet_buffer s) of
               None \<Rightarrow> None
             | Some (records, pb) \<Rightarrow>
                 (case flash_program_data e (user_data_addr e) (concat (map report_bytes pb))
                         (word_of_int (int records * 16)) (flash s) of
                    None \<Rightarrow> None
                  | Some (result, m) \<Rightarrow>
                      Some (flash_reply result, s\<lparr>packet_buffer := pb, flash := m\<rparr>)))
          else if c = 0x72 then
            Some (hexify (flash_read_data e (flash s) (user_data_addr e) 16), s)
          else if c = 0x40 then Some (hexify (word_bytes (report_index s)), s)
          else if c = 0x70 then
            Some (if \<not> paused s then ''paused'' else ''resumed'', s\<lparr>paused := \<not> paused s\<rparr>)
          else if c = 0x73 then Some (''step'', s\<lparr>single_step := True\<rparr>)
          else if c = 0x7A then Some ([], s\<lparr>report_index := 0\<rparr>)
          else Some (''invalid command, try ? for help'', s))"

text \<open>
  \<open>usbuart_usb_out_cb\<close>, for the packet \<open>usbd_ep_read_packet\<close> delivered: the loop
  over its bytes. \<open>reply\<close> is the filled part of \<open>reply_buf[256]\<close>, and the result
  is what the callback hands to \<open>send_chunked_blocking\<close>. CR is 0x0D and LF 0x0A;
  the prompt is CR LF \<open>duck> \<close>.
\<close>

definition reply_put :: "byte list \<Rightarrow> byte list \<Rightarrow> byte list option" where
  "reply_put reply bs = (if length reply + length bs \<le> 256 then Some (reply @ bs) else None)"

definition prompt :: "byte list" where
  "prompt = [0x0D, 0x0A, 0x64, 0x75, 0x63, 0x6B, 0x3E, 0x20]"

fun usbuart_usb_out_loop ::
  "'m env \<Rightarrow> byte list \<Rightarrow> byte list \<Rightarrow> 'm machine \<Rightarrow> (byte list \<times> 'm machine) option" where
  "usbuart_usb_out_loop e [] reply s = Some (reply, s)"
| "usbuart_usb_out_loop e (c # cs) reply s =
     (case reply_put reply (if c = 0x0D then [0x0A, c] else [c]) of
        None \<Rightarrow> None
      | Some reply1 \<Rightarrow>
          if typing_index s < length (typing_buf s) then
            (let s1 = s\<lparr>led := \<not> led s,
                        typing_buf := (typing_buf s)[typing_index s := c],
                        typing_index := typing_index s + 1\<rparr>
             in if c = 0x0D \<or> c = 0x0A then
                  (case process_serial_command e (typing_buf s1) (int (typing_index s1)) s1 of
                     None \<Rightarrow> None
                   | Some (response, s2) \<Rightarrow>
                       (case reply_put reply1 (map of_char response @ prompt) of
                          None \<Rightarrow> None
                        | Some reply2 \<Rightarrow>
                            usbuart_usb_out_loop e cs reply2 (s2\<lparr>typing_index := 0\<rparr>)))
                else usbuart_usb_out_loop e cs reply1 s1)
          else None)"

definition usbuart_usb_out_cb ::
  "'m env \<Rightarrow> byte list \<Rightarrow> 'm machine \<Rightarrow> (byte list \<times> 'm machine) option" where
  "usbuart_usb_out_cb e packet s = usbuart_usb_out_loop e packet [] s"

section \<open>A simulated medium\<close>

text \<open>
  One medium to run the firmware on: a byte-addressed memory and a status register.
  Every erase and every word program takes the head of \<open>plan\<close>, a pair of the status
  the operation leaves and the bits it stores wrongly; with the plan used up, the
  operation leaves "end of operation" (0x20) and stores every bit. An erased cell
  reads 0xFF.
\<close>

record sim_flash =
  cells :: "32 word \<Rightarrow> byte"
  sr :: "32 word"
  plan :: "(32 word \<times> 32 word) list"

definition sim_status :: "sim_flash \<Rightarrow> 32 word" where
  "sim_status m = (case plan m of [] \<Rightarrow> 0x20 | p # _ \<Rightarrow> fst p)"

definition sim_flip :: "sim_flash \<Rightarrow> 32 word" where
  "sim_flip m = (case plan m of [] \<Rightarrow> 0 | p # _ \<Rightarrow> snd p)"

definition sim_erase_page :: "32 word \<Rightarrow> sim_flash \<Rightarrow> sim_flash" where
  "sim_erase_page a m =
     m\<lparr>cells := (\<lambda>x. if x - a < 0x400 then 0xFF else cells m x),
       sr := sim_status m, plan := tl (plan m)\<rparr>"

definition sim_program_word :: "32 word \<Rightarrow> 32 word \<Rightarrow> sim_flash \<Rightarrow> sim_flash" where
  "sim_program_word a w m =
     m\<lparr>cells := (\<lambda>x. if x - a < 4 then word_bytes (w XOR sim_flip m) ! unat (x - a)
                      else cells m x),
       sr := sim_status m, plan := tl (plan m)\<rparr>"

definition sim_env :: "sim_flash env" where
  "sim_env =
     \<lparr>flash_unlock = (\<lambda>m. m),
      flash_erase_page = sim_erase_page,
      flash_get_status_flags = sr,
      flash_program_word = sim_program_word,
      flash_peek = cells,
      FLASH_SR_EOP = 0x20,
      user_data_addr = 0x08002000,
      FIRMWARE_VERSION = ''1.0''\<rparr>"

text \<open>A medium holding the given bytes from \<open>user_data\<close> on, erased elsewhere.\<close>

definition sim_holding :: "byte list \<Rightarrow> (32 word \<times> 32 word) list \<Rightarrow> sim_flash" where
  "sim_holding bs p =
     \<lparr>cells = (\<lambda>x. if unat (x - 0x08002000) < length bs then bs ! unat (x - 0x08002000)
                    else 0xFF),
      sr = 0, plan = p\<rparr>"

text \<open>The machine after reset, with nothing typed and an endpoint that accepts at once.\<close>

definition boot :: "'m \<Rightarrow> 'm machine" where
  "boot m =
     \<lparr>report_index = 0, paused = True, single_step = False, delaying = False,
      delay_ticks_remaining = 0, packet_buffer = replicate 64 zero_report, flash = m,
      led = True, usb_ret = replicate 8 1, hid_out = [],
      typing_buf = replicate 2048 0, typing_index = 0\<rparr>"

text \<open>\<open>accepts n answers\<close>: the endpoint takes \<open>n\<close> more packets.\<close>

fun accepts :: "nat \<Rightarrow> 16 word list \<Rightarrow> bool" where
  "accepts 0 answers = True"
| "accepts (Suc n) answers =
     (case write_until_accepted answers of None \<Rightarrow> False | Some rest \<Rightarrow> accepts n rest)"

text \<open>Stored records as bytes, and a machine running a stored script.\<close>

definition kbd_bytes :: "byte \<Rightarrow> byte \<Rightarrow> byte list" where
  "kbd_bytes mods key = [1, mods, 0, key, 0, 0, 0, 0, 0, 0, 0, 0, 0, 0, 0, 0]"

definition delay_bytes :: "byte \<Rightarrow> byte list" where
  "delay_bytes d = [254, d, 0, 0, 0, 0, 0, 0, 0, 0, 0, 0, 0, 0, 0, 0]"

definition end_bytes :: "byte list" where
  "end_bytes = [255, 0, 0, 0, 0, 0, 0, 0, 0, 0, 0, 0, 0, 0, 0, 0]"

definition running :: "byte list \<Rightarrow> sim_flash machine" where
  "running script =
     (boot (sim_holding script []))\<lparr>paused := False, usb_ret := [0, 9, 0, 0, 9, 9]\<rparr>"

text \<open>The fields of a stored record as the pointer report reads them; X is signed.\<close>

definition mouse_fields :: "composite_report \<Rightarrow> byte \<times> byte \<times> int \<times> byte \<times> byte" where
  "mouse_fields r =
     (report_id r, padding r mouse_buttons, sint (padding r mouse_x), padding r mouse_y,
      padding r mouse_wheel)"

text \<open>
  The bytecode decoder as the specification words it: each little-endian word with a zero
  low byte is one delay of the high byte, any other word is a key press (modifiers the
  high byte, key the low byte) and a release, a trailing odd byte is dropped, and one
  end mark closes the output. \<open>holds\<close> reads such a record off a stored one, and
  \<open>keystroke_words\<close> and \<open>delay_words\<close> count the two kinds of word.
\<close>

datatype bc_record = KeyPress byte byte | KeyRelease | DelayFor byte | EndMark

fun decodeBytecode :: "byte list \<Rightarrow> bc_record list" where
  "decodeBytecode (lo # hi # rest) =
     (if lo = 0 then [DelayFor hi] else [KeyPress hi lo, KeyRelease]) @ decodeBytecode rest"
| "decodeBytecode _ = [EndMark]"

fun holds :: "bc_record \<Rightarrow> composite_report \<Rightarrow> bool" where
  "holds (KeyPress mods key) r =
     (report_id r = REPORT_ID_KEYBOARD \<and> padding r keyboard_modifiers = mods
      \<and> padding r keyboard_reserved = 1 \<and> padding r (keyboard_keys_down 0) = key
      \<and> padding r (keyboard_keys_down 1) = 0 \<and> padding r (keyboard_keys_down 2) = 0
      \<and> padding r (keyboard_keys_down 3) = 0 \<and> padding r (keyboard_keys_down 4) = 0
      \<and> padding r (keyboard_keys_down 5) = 0 \<and> padding r keyboard_leds = 0)"
| "holds KeyRelease r =
     (report_id r = REPORT_ID_KEYBOARD \<and> padding r keyboard_modifiers = 0
      \<and> padding r keyboard_reserved = 1 \<and> padding r (keyboard_keys_down 0) = 0
      \<and> padding r (keyboard_keys_down 1) = 0 \<and> padding r (keyboard_keys_down 2) = 0
      \<and> padding r (keyboard_keys_down 3) = 0 \<and> padding r (keyboard_keys_down 4) = 0
      \<and> padding r (keyboard_keys_down 5) = 0 \<and> padding r keyboard_leds = 0)"
| "holds (DelayFor d) r = (report_id r = REPORT_ID_DELAY \<and> padding r 0 = d)"
| "holds EndMark r = (report_id r = REPORT_ID_END)"

fun keystroke_words :: "byte list \<Rightarrow> nat" where
  "keystroke_words (lo # hi # rest) = (if lo = 0 then 0 else 1) + keystroke_words rest"
| "keystroke_words _ = 0"

fun delay_words :: "byte list \<Rightarrow> nat" where
  "delay_words (lo # hi # rest) = (if lo = 0 then 1 else 0) + delay_words rest"
| "delay_words _ = 0"

text \<open>
  The writes the loop of \<open>convert_ducky_binary\<close> makes, one function per record
  written, and their effect on the output array from index \<open>j\<close> on.
\<close>

fun writers :: "byte list \<Rightarrow> (composite_report \<Rightarrow> composite_report) list" where
  "writers [] = []"
| "writers [v] = []"
| "writers (lo # hi # rest) =
     (if lo = 0 then [delay_record hi] else [key_record hi lo, key_record 0 0]) @ writers rest"

fun apply_writers ::
  "(composite_report \<Rightarrow> composite_report) list \<Rightarrow> nat \<Rightarrow> composite_report list
     \<Rightarrow> composite_report list" where
  "apply_writers [] j out = out"
| "apply_writers (f # fs) j out = apply_writers fs (j + 1) (out[j := f (out ! j)])"

text \<open>
  What \<open>flash_program_data\<close> leaves behind, word by word: \<open>word_at\<close> is the
  \<open>k\<close>-th input word, \<open>erased\<close> the medium after the unlock and the page erase,
  \<open>programmed\<close> the medium after the first \<open>k\<close> words were programmed in order,
  and \<open>chunk_ok\<close> says that word \<open>k\<close> left the success status and read back as
  written. \<open>program_outcome\<close> is the return value and medium for the first word of
  \<open>ks\<close> that is not ok, or for none.
\<close>

definition word_at :: "byte list \<Rightarrow> nat \<Rightarrow> 32 word" where
  "word_at input_data k =
     le32 (input_data ! (4 * k)) (input_data ! (4 * k + 1)) (input_data ! (4 * k + 2))
          (input_data ! (4 * k + 3))"

fun programmed :: "'m env \<Rightarrow> 32 word \<Rightarrow> byte list \<Rightarrow> nat \<Rightarrow> 'm \<Rightarrow> 'm" where
  "programmed e a input_data 0 m = m"
| "programmed e a input_data (Suc k) m =
     flash_program_word e (a + of_nat (4 * k)) (word_at input_data k)
       (programmed e a input_data k m)"

definition chunk_ok :: "'m env \<Rightarrow> 32 word \<Rightarrow> byte list \<Rightarrow> 'm \<Rightarrow> nat \<Rightarrow> bool" where
  "chunk_ok e a input_data m k =
     (flash_get_status_flags e (programmed e a input_data (Suc k) m) = FLASH_SR_EOP e
      \<and> read32 e (programmed e a input_data (Suc k) m) (a + of_nat (4 * k))
          = word_at input_data k)"

definition erased :: "'m env \<Rightarrow> 32 word \<Rightarrow> 'm \<Rightarrow> 'm" where
  "erased e a m =
     flash_erase_page e (if a mod FLASH_PAGE_SIZE \<noteq> 0 then a - a mod FLASH_PAGE_SIZE else a)
       (flash_unlock e m)"

definition program_outcome ::
  "'m env \<Rightarrow> 32 word \<Rightarrow> byte list \<Rightarrow> 'm \<Rightarrow> nat list \<Rightarrow> nat \<Rightarrow> 32 word \<times> 'm" where
  "program_outcome e a input_data m ks n =
     (case find (\<lambda>k. \<not> chunk_ok e a input_data m k) ks of
        None \<Rightarrow> (RESULT_OK, programmed e a input_data n m)
      | Some k \<Rightarrow>
          (if flash_get_status_flags e (programmed e a input_data (Suc k) m) \<noteq> FLASH_SR_EOP e
           then flash_get_status_flags e (programmed e a input_data (Suc k) m)
           else FLASH_WRONG_DATA_WRITTEN,
           programmed e a input_data (Suc k) m))"

text \<open>Reading the simulated medium after a call: one word, and the first twelve stored bytes.\<close>

definition sim_result_word :: "32 word \<Rightarrow> (32 word \<times> sim_flash) option \<Rightarrow> 32 word option" where
  "sim_result_word a res = map_option (\<lambda>(r, m). read32 sim_env m a) res"

definition stored_bytes :: "('a \<times> sim_flash machine) option \<Rightarrow> byte list option" where
  "stored_bytes res =
     map_option (\<lambda>(reply, s). map (cells (flash s))
        [0x08002000, 0x08002001, 0x08002002, 0x08002003, 0x08002004, 0x08002005,
         0x08002006, 0x08002007, 0x08002008, 0x08002009, 0x0800200A, 0x0800200B]) res"

text \<open>
  The simulated machine after \<open>n\<close> ticks of a script and then the line \<open>z\<close> CR on
  the serial port; further ticks from such a state; and the first two bytes of the
  record at its cursor.
\<close>

definition reset_mid_delay :: "byte list \<Rightarrow> nat \<Rightarrow> sim_flash machine option" where
  "reset_mid_delay script n =
     (case ticks n sim_env (running script) of
        None \<Rightarrow> None
      | Some s \<Rightarrow> map_option snd (usbuart_usb_out_cb sim_env [0x7A, 0x0D] s))"

definition then_ticks :: "nat \<Rightarrow> sim_flash machine option \<Rightarrow> sim_flash machine option" where
  "then_ticks n st = (case st of None \<Rightarrow> None | Some s \<Rightarrow> ticks n sim_env s)"

definition cursor_record :: "sim_flash machine option \<Rightarrow> byte list option" where
  "cursor_record st =
     map_option (\<lambda>s. take 2 (report_bytes (user_data sim_env (flash s) (report_index s)))) st"

section \<open>Properties of the execution engine\<close>

lemmas sim_defs = running_def boot_def sim_holding_def sim_env_def user_data_def
  kbd_bytes_def delay_bytes_def end_bytes_def
  REPORT_ID_KEYBOARD_def REPORT_ID_END_def REPORT_ID_DELAY_def REPORT_ID_MOUSE_def
  REPORT_ID_NOP_def

lemma typing_buf_zeros:
  "replicate 2048 (0 :: byte) =
     [0, 0, 0, 0, 0, 0, 0, 0, 0, 0, 0, 0, 0, 0, 0, 0, 0, 0, 0, 0, 0, 0, 0, 0] @ replicate 2024 0"
proof -
  have "replicate 2048 (0 :: byte) = replicate 24 0 @ replicate 2024 0"
    by (simp add: replicate_add [symmetric])
  then show ?thesis by (simp add: numeral_eq_Suc)
qed

lemma accepts_1: "accepts (Suc 0) answers \<Longrightarrow> \<exists>rest. write_until_accepted answers = Some rest"
  by (cases "write_until_accepted answers") simp_all

lemma accepts_Suc:
  "accepts (Suc n) answers \<Longrightarrow> \<exists>rest. write_until_accepted answers = Some rest \<and> accepts n rest"
  by (cases "write_until_accepted answers") simp_all

lemma tick_cases:
  assumes "sys_tick_handler e s = Some s'"
  shows "(report_index s' = report_index s \<or> report_index s' = report_index s + 1
           \<or> report_index s' = 0)
         \<and> (hid_out s' = hid_out s \<or> (\<exists>p. hid_out s' = hid_out s @ [p]))"
  using assms
  by (auto simp: sys_tick_handler_def send_report_def Let_def
           split: if_splits option.splits)

lemma tick_returns:
  assumes "accepts (Suc 0) (usb_ret s)"
  shows "\<exists>s'. sys_tick_handler e s = Some s'"
  using accepts_1 [OF assms]
  by (auto simp: sys_tick_handler_def send_report_def Let_def)

lemma tick_keyboard:
  assumes "\<not> paused s" "\<not> single_step s"
    and "report_id (user_data e (flash s) (report_index s)) = REPORT_ID_KEYBOARD"
    and "write_until_accepted (usb_ret s) = Some rest"
  shows "sys_tick_handler e s =
           Some (s\<lparr>usb_ret := rest,
                   hid_out := hid_out s
                     @ [take 9 (report_bytes (user_data e (flash s) (report_index s)))],
                   led := \<not> led s, report_index := report_index s + 1\<rparr>)"
  using assms
  by (simp add: sys_tick_handler_def send_report_def Let_def REPORT_ID_KEYBOARD_def
        REPORT_ID_NOP_def REPORT_ID_DELAY_def)

lemma tick_latch:
  assumes "\<not> paused s" "\<not> delaying s"
    and "report_id (user_data e (flash s) (report_index s)) = REPORT_ID_DELAY"
  shows "sys_tick_handler e s =
           Some (s\<lparr>delay_ticks_remaining :=
                     uint (padding (user_data e (flash s) (report_index s)) 0),
                   delaying := True\<rparr>)"
  using assms
  by (simp add: sys_tick_handler_def Let_def REPORT_ID_NOP_def REPORT_ID_DELAY_def)

lemma tick_count_down:
  assumes "\<not> paused s" "delaying s" "1 < delay_ticks_remaining s"
    and "report_id (user_data e (flash s) (report_index s)) = REPORT_ID_DELAY"
  shows "sys_tick_handler e s = Some (s\<lparr>delay_ticks_remaining := delay_ticks_remaining s - 1\<rparr>)"
  using assms
  by (simp add: sys_tick_handler_def Let_def REPORT_ID_NOP_def REPORT_ID_DELAY_def)

lemma tick_delay_done:
  assumes "\<not> paused s" "delaying s" "delay_ticks_remaining s \<le> 1"
    and "report_id (user_data e (flash s) (report_index s)) = REPORT_ID_DELAY"
  shows "sys_tick_handler e s =
           Some (s\<lparr>delay_ticks_remaining := delay_ticks_remaining s - 1, delaying := False,
                   report_index := report_index s + 1\<rparr>)"
  using assms
  by (simp add: sys_tick_handler_def Let_def REPORT_ID_NOP_def REPORT_ID_DELAY_def)

lemma ticks_numeral:
  "ticks (numeral k) e s =
     (case sys_tick_handler e s of None \<Rightarrow> None | Some s1 \<Rightarrow> ticks (pred_numeral k) e s1)"
  by (simp add: numeral_eq_Suc)

lemmas run_defs = reset_mid_delay_def then_ticks_def cursor_record_def usbuart_usb_out_cb_def
  typing_buf_zeros reply_put_def process_serial_command_def prompt_def list_update_append
  sim_defs ticks_numeral sys_tick_handler_def send_report_def report_bytes_def Let_def

lemma ticks_add:
  "ticks (a + b) e s = (case ticks a e s of None \<Rightarrow> None | Some s1 \<Rightarrow> ticks b e s1)"
  by (induction a arbitrary: s) (simp_all split: option.splits)

lemma ticks_Suc_end:
  "ticks (Suc k) e s = (case ticks k e s of None \<Rightarrow> None | Some s1 \<Rightarrow> sys_tick_handler e s1)"
  using ticks_add [of k 1 e s] by (simp split: option.splits)

lemma ticks_count_down:
  assumes "\<not> paused s" "delaying s" "int k < delay_ticks_remaining s"
    and "report_id (user_data e (flash s) (report_index s)) = REPORT_ID_DELAY"
  shows "ticks k e s = Some (s\<lparr>delay_ticks_remaining := delay_ticks_remaining s - int k\<rparr>)"
  using assms
proof (induction k arbitrary: s)
  case 0
  then show ?case by simp
next
  case (Suc k)
  let ?s1 = "s\<lparr>delay_ticks_remaining := delay_ticks_remaining s - 1\<rparr>"
  have "sys_tick_handler e s = Some ?s1"
    using Suc.prems by (intro tick_count_down) simp_all
  moreover have "ticks k e ?s1 =
      Some (?s1\<lparr>delay_ticks_remaining := delay_ticks_remaining ?s1 - int k\<rparr>)"
    using Suc.prems by (intro Suc.IH) simp_all
  ultimately show ?case by simp
qed

lemma delay_run:
  assumes np: "\<not> paused s" and nd: "\<not> delaying s"
    and d: "report_id (user_data e (flash s) (report_index s)) = REPORT_ID_DELAY"
    and n: "n = unat (padding (user_data e (flash s) (report_index s)) 0)"
  shows "k < n \<Longrightarrow> ticks (Suc k) e s =
           Some (s\<lparr>delay_ticks_remaining := int n - int k, delaying := True\<rparr>)"
    and "ticks (Suc (max n 1)) e s =
           Some (s\<lparr>delay_ticks_remaining := int n - int (max n 1), delaying := False,
                   report_index := report_index s + 1\<rparr>)"
proof -
  define sl where "sl = s\<lparr>delay_ticks_remaining := int n, delaying := True\<rparr>"
  have latch: "sys_tick_handler e s = Some sl"
    using tick_latch [OF np nd d] by (simp add: sl_def n)
  have down: "ticks k e sl = Some (sl\<lparr>delay_ticks_remaining := int n - int k\<rparr>)"
    if "k < n" for k
    using ticks_count_down [of sl k e] that np d by (simp add: sl_def)
  show "ticks (Suc k) e s = Some (s\<lparr>delay_ticks_remaining := int n - int k, delaying := True\<rparr>)"
    if "k < n"
    using latch down [OF that] by (simp add: sl_def)
  have "ticks (max n 1) e sl =
          Some (sl\<lparr>delay_ticks_remaining := int n - int (max n 1), delaying := False,
                   report_index := report_index s + 1\<rparr>)"
  proof (cases "n = 0")
    case True
    then show ?thesis
      using tick_delay_done [of sl e] np d by (simp add: sl_def)
  next
    case False
    then obtain j where j: "n = Suc j" by (cases n) auto
    have "ticks j e sl = Some (sl\<lparr>delay_ticks_remaining := int n - int j\<rparr>)"
      using down [of j] j by simp
    moreover have "sys_tick_handler e (sl\<lparr>delay_ticks_remaining := int n - int j\<rparr>) =
        Some (sl\<lparr>delay_ticks_remaining := int n - int j - 1, delaying := False,
                 report_index := report_index s + 1\<rparr>)"
      using tick_delay_done [of "sl\<lparr>delay_ticks_remaining := int n - int j\<rparr>" e] np d j
      by (simp add: sl_def)
    moreover have "max n 1 = Suc j" using j by simp
    ultimately show ?thesis
      using j by (simp add: ticks_Suc_end sl_def del: ticks.simps)
  qed
  then show "ticks (Suc (max n 1)) e s =
           Some (s\<lparr>delay_ticks_remaining := int n - int (max n 1), delaying := False,
                   report_index := report_index s + 1\<rparr>)"
    using latch by (simp add: sl_def)
qed

text \<open>
  C6. On every tick, from every state and for every stored script, the cursor stays,
  moves on by one or goes back to 0, and at most one packet reaches the endpoint. The
  tick returns whenever the endpoint accepts one more packet.
\<close>

theorem tick_moves_at_most_one:
  "(accepts 1 (usb_ret s) \<longrightarrow> (\<exists>s'. sys_tick_handler e s = Some s'))
   \<and> (\<forall>s'. sys_tick_handler e s = Some s' \<longrightarrow>
         (report_index s' = report_index s \<or> report_index s' = report_index s + 1
            \<or> report_index s' = 0)
         \<and> (hid_out s' = hid_out s \<or> (\<exists>p. hid_out s' = hid_out s @ [p])))"
  using tick_cases [of e s] tick_returns [of s e] by auto

theorem tick_moves_at_most_one_witness:
  "accepts 1 (usb_ret (running (kbd_bytes 2 7 @ end_bytes)))
   \<and> (\<exists>s'. sys_tick_handler sim_env (running (kbd_bytes 2 7 @ end_bytes)) = Some s'
         \<and> (report_index s' = report_index (running (kbd_bytes 2 7 @ end_bytes))
              \<or> report_index s' = report_index (running (kbd_bytes 2 7 @ end_bytes)) + 1
              \<or> report_index s' = 0)
         \<and> (hid_out s' = hid_out (running (kbd_bytes 2 7 @ end_bytes))
              \<or> (\<exists>p. hid_out s' = hid_out (running (kbd_bytes 2 7 @ end_bytes)) @ [p])))"
proof -
  have a: "accepts 1 (usb_ret (running (kbd_bytes 2 7 @ end_bytes)))"
    by (simp add: running_def)
  from tick_moves_at_most_one [of "running (kbd_bytes 2 7 @ end_bytes)" sim_env] a
  show ?thesis by blast
qed

text \<open>
  C5. With SingleStep set, a tick on a Keyboard or Pointer record that the endpoint
  accepts emits that record, leaves Paused set and SingleStep clear, moves the cursor
  on by exactly one, and the tick after it changes nothing and emits nothing.
\<close>

theorem single_step_pauses:
  assumes "single_step s"
    and "report_id (user_data e (flash s) (report_index s)) = REPORT_ID_KEYBOARD
         \<or> report_id (user_data e (flash s) (report_index s)) = REPORT_ID_MOUSE"
    and "accepts 1 (usb_ret s)"
  shows "\<exists>s1 p. sys_tick_handler e s = Some s1
           \<and> hid_out s1 = hid_out s @ [p]
           \<and> paused s1 \<and> \<not> single_step s1
           \<and> report_index s1 = report_index s + 1
           \<and> sys_tick_handler e s1 = Some s1"
proof -
  from assms(3) obtain rest where r: "write_until_accepted (usb_ret s) = Some rest"
    using accepts_1 by auto
  show ?thesis
    using assms(1,2) r
    by (auto simp: sys_tick_handler_def send_report_def Let_def REPORT_ID_KEYBOARD_def
          REPORT_ID_MOUSE_def REPORT_ID_NOP_def REPORT_ID_DELAY_def)
qed

theorem single_step_pauses_witness:
  "\<exists>s1. sys_tick_handler sim_env
            ((running (kbd_bytes 2 7 @ end_bytes))\<lparr>paused := True, single_step := True\<rparr>)
          = Some s1
        \<and> hid_out s1 = [[1, 2, 0, 7, 0, 0, 0, 0, 0]]
        \<and> paused s1 \<and> \<not> single_step s1 \<and> report_index s1 = 1
        \<and> sys_tick_handler sim_env s1 = Some s1"
proof -
  let ?s = "(running (kbd_bytes 2 7 @ end_bytes))\<lparr>paused := True, single_step := True\<rparr>"
  have h: "single_step ?s"
    "report_id (user_data sim_env (flash ?s) (report_index ?s)) = REPORT_ID_KEYBOARD
     \<or> report_id (user_data sim_env (flash ?s) (report_index ?s)) = REPORT_ID_MOUSE"
    "accepts 1 (usb_ret ?s)"
    by (simp_all add: sim_defs)
  from single_step_pauses [OF h] obtain s1 p
    where t: "sys_tick_handler sim_env ?s = Some s1" and p: "hid_out s1 = hid_out ?s @ [p]"
      and r: "paused s1" "\<not> single_step s1" "report_index s1 = report_index ?s + 1"
        "sys_tick_handler sim_env s1 = Some s1"
    by blast
  have "hid_out s1 = [[1, 2, 0, 7, 0, 0, 0, 0, 0]]"
    using t
    by (auto simp: sim_defs sys_tick_handler_def send_report_def report_bytes_def Let_def)
  moreover have "report_index ?s = 0" by (simp add: sim_defs)
  ultimately show ?thesis using t r by auto
qed

text \<open>
  C3, as the code has it. With the engine unpaused, SingleStep clear and the script
  [Keyboard A, Keyboard B, End] from cursor 0, and an endpoint that accepts two more
  packets, three ticks move the cursor 0, 1, 2, 0 and emit the nine-byte forms of A
  and then B; the tick on End emits nothing.
\<close>

theorem three_ticks_wrap:
  assumes "\<not> paused s" and "\<not> single_step s" and "report_index s = 0"
    and "report_id (user_data e (flash s) 0) = REPORT_ID_KEYBOARD"
    and "report_id (user_data e (flash s) 1) = REPORT_ID_KEYBOARD"
    and "report_id (user_data e (flash s) 2) = REPORT_ID_END"
    and "accepts 2 (usb_ret s)"
  shows "\<exists>s1 s2 s3.
           sys_tick_handler e s = Some s1 \<and> sys_tick_handler e s1 = Some s2
           \<and> sys_tick_handler e s2 = Some s3
           \<and> report_index s1 = 1 \<and> report_index s2 = 2 \<and> report_index s3 = 0
           \<and> hid_out s1 = hid_out s @ [take 9 (report_bytes (user_data e (flash s) 0))]
           \<and> hid_out s2 = hid_out s1 @ [take 9 (report_bytes (user_data e (flash s) 1))]
           \<and> hid_out s3 = hid_out s2"
proof -
  from assms(7) obtain r1 where r1: "write_until_accepted (usb_ret s) = Some r1"
    and a1: "accepts (Suc 0) r1"
    using accepts_Suc [of "Suc 0" "usb_ret s"] by (auto simp: numeral_2_eq_2)
  from a1 obtain r2 where r2: "write_until_accepted r1 = Some r2"
    using accepts_1 by auto
  define s1 where "s1 = s\<lparr>usb_ret := r1,
      hid_out := hid_out s @ [take 9 (report_bytes (user_data e (flash s) (report_index s)))],
      led := \<not> led s, report_index := report_index s + 1\<rparr>"
  define s2 where "s2 = s1\<lparr>usb_ret := r2,
      hid_out := hid_out s1 @ [take 9 (report_bytes (user_data e (flash s1) (report_index s1)))],
      led := \<not> led s1, report_index := report_index s1 + 1\<rparr>"
  have t1: "sys_tick_handler e s = Some s1"
    unfolding s1_def using assms r1 by (intro tick_keyboard) simp_all
  have t2: "sys_tick_handler e s1 = Some s2"
    unfolding s2_def using assms r2 by (intro tick_keyboard) (simp_all add: s1_def)
  have t3: "sys_tick_handler e s2 = Some (s2\<lparr>report_index := 0\<rparr>)"
    using assms
    by (simp add: sys_tick_handler_def Let_def s2_def s1_def REPORT_ID_KEYBOARD_def
          REPORT_ID_NOP_def REPORT_ID_DELAY_def REPORT_ID_END_def REPORT_ID_MOUSE_def)
  show ?thesis
    using t1 t2 t3 assms(3) by (simp add: s1_def s2_def)
qed

theorem three_ticks_wrap_witness:
  "\<exists>s1 s2 s3.
      sys_tick_handler sim_env (running (kbd_bytes 2 7 @ kbd_bytes 0 0 @ end_bytes)) = Some s1
    \<and> sys_tick_handler sim_env s1 = Some s2 \<and> sys_tick_handler sim_env s2 = Some s3
    \<and> report_index s1 = 1 \<and> report_index s2 = 2 \<and> report_index s3 = 0
    \<and> hid_out s3 = [[1, 2, 0, 7, 0, 0, 0, 0, 0], [1, 0, 0, 0, 0, 0, 0, 0, 0]]"
proof -
  let ?s = "running (kbd_bytes 2 7 @ kbd_bytes 0 0 @ end_bytes)"
  have h: "\<not> paused ?s" "\<not> single_step ?s" "report_index ?s = 0"
    "report_id (user_data sim_env (flash ?s) 0) = REPORT_ID_KEYBOARD"
    "report_id (user_data sim_env (flash ?s) 1) = REPORT_ID_KEYBOARD"
    "report_id (user_data sim_env (flash ?s) 2) = REPORT_ID_END"
    by (simp_all add: sim_defs)
  have a: "accepts 2 (usb_ret ?s)"
    by code_simp
  have b: "take 9 (report_bytes (user_data sim_env (flash ?s) 0)) = [1, 2, 0, 7, 0, 0, 0, 0, 0]"
    "take 9 (report_bytes (user_data sim_env (flash ?s) 1)) = [1, 0, 0, 0, 0, 0, 0, 0, 0]"
    "hid_out ?s = []"
    by (simp_all add: sim_defs report_bytes_def)
  from three_ticks_wrap [OF h a] b show ?thesis by auto
qed

text \<open>
  C3 as stated fails when SingleStep is set on the unpaused engine: the first tick
  emits A and pauses, so after three ticks the cursor is at 1 and one record is out.
\<close>

theorem three_ticks_single_step_counterexample:
  "\<not> paused ((running (kbd_bytes 2 7 @ kbd_bytes 0 0 @ end_bytes))\<lparr>single_step := True\<rparr>)
   \<and> report_index
        ((running (kbd_bytes 2 7 @ kbd_bytes 0 0 @ end_bytes))\<lparr>single_step := True\<rparr>) = 0
   \<and> map_option report_index
        (ticks 3 sim_env
           ((running (kbd_bytes 2 7 @ kbd_bytes 0 0 @ end_bytes))\<lparr>single_step := True\<rparr>))
      = Some 1
   \<and> map_option hid_out
        (ticks 3 sim_env
           ((running (kbd_bytes 2 7 @ kbd_bytes 0 0 @ end_bytes))\<lparr>single_step := True\<rparr>))
      = Some [[1, 2, 0, 7, 0, 0, 0, 0, 0]]"
  by (simp add: sim_defs ticks_numeral sys_tick_handler_def send_report_def report_bytes_def
        Let_def)

text \<open>
  C4, as the code has it. With the engine unpaused and Delaying clear, a Delay record
  of duration 3 at the cursor takes four ticks: the first latches a countdown of 3 and
  sets Delaying, the next two count down with the cursor held, the fourth clears
  Delaying and moves the cursor on by one. None of the four emits anything.
\<close>

theorem delay_3_takes_4_ticks:
  assumes "\<not> paused s" and "\<not> delaying s"
    and "report_id (user_data e (flash s) (report_index s)) = REPORT_ID_DELAY"
    and "padding (user_data e (flash s) (report_index s)) 0 = 3"
  shows "\<exists>s1 s2 s3 s4.
           sys_tick_handler e s = Some s1 \<and> sys_tick_handler e s1 = Some s2
           \<and> sys_tick_handler e s2 = Some s3 \<and> sys_tick_handler e s3 = Some s4
           \<and> delaying s1 \<and> delay_ticks_remaining s1 = 3
           \<and> report_index s1 = report_index s \<and> report_index s2 = report_index s
           \<and> report_index s3 = report_index s \<and> report_index s4 = report_index s + 1
           \<and> \<not> delaying s4
           \<and> hid_out s1 = hid_out s \<and> hid_out s2 = hid_out s \<and> hid_out s3 = hid_out s
           \<and> hid_out s4 = hid_out s"
proof -
  define s1 where "s1 = s\<lparr>delay_ticks_remaining := 3, delaying := True\<rparr>"
  define s2 where "s2 = s1\<lparr>delay_ticks_remaining := 2\<rparr>"
  define s3 where "s3 = s1\<lparr>delay_ticks_remaining := 1\<rparr>"
  define s4 where "s4 = s1\<lparr>delay_ticks_remaining := 0, delaying := False,
                          report_index := report_index s + 1\<rparr>"
  have t1: "sys_tick_handler e s = Some s1"
    using tick_latch [OF assms(1-3)] assms(4) by (simp add: s1_def)
  have t2: "sys_tick_handler e s1 = Some s2"
    using tick_count_down [of s1 e] assms by (simp add: s1_def s2_def)
  have t3: "sys_tick_handler e s2 = Some s3"
    using tick_count_down [of s2 e] assms by (simp add: s1_def s2_def s3_def)
  have t4: "sys_tick_handler e s3 = Some s4"
    using tick_delay_done [of s3 e] assms by (simp add: s1_def s3_def s4_def)
  show ?thesis
    using t1 t2 t3 t4 by (simp add: s1_def s2_def s3_def s4_def)
qed

theorem delay_3_takes_4_ticks_witness:
  "\<exists>s4. ticks 4 sim_env (running (delay_bytes 3 @ end_bytes)) = Some s4
     \<and> report_index s4 = 1 \<and> hid_out s4 = []
     \<and> map_option report_index (ticks 3 sim_env (running (delay_bytes 3 @ end_bytes))) = Some 0"
proof -
  let ?s = "running (delay_bytes 3 @ end_bytes)"
  have h: "\<not> paused ?s" "\<not> delaying ?s"
    "report_id (user_data sim_env (flash ?s) (report_index ?s)) = REPORT_ID_DELAY"
    "padding (user_data sim_env (flash ?s) (report_index ?s)) 0 = 3"
    by (simp_all add: sim_defs)
  have i: "report_index ?s = 0" "hid_out ?s = []" by (simp_all add: sim_defs)
  from delay_3_takes_4_ticks [OF h] i show ?thesis
    by (auto simp: ticks_numeral)
qed

text \<open>
  C4 as stated fails when Delaying is still set from a delay that a reset cut short.
  The script is [Delay 3, Delay 200, End]. After 15 ticks the engine is ten ticks into
  the second delay; the line \<open>z\<close> CR puts the cursor back to 0 and leaves Delaying
  set with 190 ticks remaining. The engine is unpaused with the Delay of 3 at the
  cursor, and four ticks later the cursor is still at 0.
\<close>

theorem delay_3_stale_flag_counterexample:
  "map_option paused (reset_mid_delay (delay_bytes 3 @ delay_bytes 200 @ end_bytes) 15)
     = Some False
   \<and> map_option delaying (reset_mid_delay (delay_bytes 3 @ delay_bytes 200 @ end_bytes) 15)
     = Some True
   \<and> map_option report_index (reset_mid_delay (delay_bytes 3 @ delay_bytes 200 @ end_bytes) 15)
     = Some 0
   \<and> cursor_record (reset_mid_delay (delay_bytes 3 @ delay_bytes 200 @ end_bytes) 15)
     = Some [254, 3]
   \<and> map_option report_index
       (then_ticks 4 (reset_mid_delay (delay_bytes 3 @ delay_bytes 200 @ end_bytes) 15))
     = Some 0"
  by (simp add: run_defs)

text \<open>
  C10, as the code has it. With the engine unpaused and Delaying clear, a Delay record
  of duration N at the cursor holds the cursor for N + 1 ticks when N is at least 1
  and for 2 ticks when N is 0: after any smaller number of ticks the cursor has not
  moved, the last of these ticks moves it on by one, and nothing is emitted on the way.
\<close>

theorem delay_holds_cursor:
  assumes "\<not> paused s" and "\<not> delaying s"
    and "report_id (user_data e (flash s) (report_index s)) = REPORT_ID_DELAY"
    and "n = unat (padding (user_data e (flash s) (report_index s)) 0)"
    and "hold = (if n = 0 then 2 else n + 1)"
  shows "(\<forall>k<hold. \<exists>sk. ticks k e s = Some sk \<and> report_index sk = report_index s
                          \<and> hid_out sk = hid_out s)
         \<and> (\<exists>s'. ticks hold e s = Some s' \<and> report_index s' = report_index s + 1
                   \<and> hid_out s' = hid_out s)"
proof (intro conjI allI impI)
  fix k assume k: "k < hold"
  show "\<exists>sk. ticks k e s = Some sk \<and> report_index sk = report_index s \<and> hid_out sk = hid_out s"
  proof (cases k)
    case 0
    then show ?thesis by simp
  next
    case (Suc j)
    show ?thesis
    proof (cases "j < n")
      case True
      then show ?thesis
        using delay_run(1) [OF assms(1-4), of j] Suc by simp
    next
      case False
      with k Suc assms(5) have "n = 0" "j = 0" by (auto split: if_splits)
      then show ?thesis
        using tick_latch [OF assms(1-3)] Suc by simp
    qed
  qed
next
  have "hold = Suc (max n 1)" using assms(5) by auto
  then show "\<exists>s'. ticks hold e s = Some s' \<and> report_index s' = report_index s + 1
                   \<and> hid_out s' = hid_out s"
    using delay_run(2) [OF assms(1-4)] by simp
qed

theorem delay_holds_cursor_witness:
  "map_option report_index (ticks 1 sim_env (running (delay_bytes 0 @ end_bytes))) = Some 0
   \<and> map_option report_index (ticks 2 sim_env (running (delay_bytes 0 @ end_bytes))) = Some 1
   \<and> map_option report_index (ticks 5 sim_env (running (delay_bytes 5 @ end_bytes))) = Some 0
   \<and> map_option report_index (ticks 6 sim_env (running (delay_bytes 5 @ end_bytes))) = Some 1"
proof -
  let ?s = "running (delay_bytes 0 @ end_bytes)"
  let ?t = "running (delay_bytes 5 @ end_bytes)"
  have h: "\<not> paused ?s" "\<not> delaying ?s"
    "report_id (user_data sim_env (flash ?s) (report_index ?s)) = REPORT_ID_DELAY"
    "0 = unat (padding (user_data sim_env (flash ?s) (report_index ?s)) 0)"
    "2 = (if (0::nat) = 0 then 2 else 0 + 1)"
    by (simp_all add: sim_defs)
  have g: "\<not> paused ?t" "\<not> delaying ?t"
    "report_id (user_data sim_env (flash ?t) (report_index ?t)) = REPORT_ID_DELAY"
    "5 = unat (padding (user_data sim_env (flash ?t) (report_index ?t)) 0)"
    "6 = (if (5::nat) = 0 then 2 else 5 + 1)"
    by (simp_all add: sim_defs)
  have i: "report_index ?s = 0" "report_index ?t = 0" by (simp_all add: sim_defs)
  have lt: "(1::nat) < 2" "(5::nat) < 6" by simp_all
  from delay_holds_cursor [OF h] lt(1)
  have a: "\<exists>sk. ticks 1 sim_env ?s = Some sk \<and> report_index sk = report_index ?s"
    by blast
  from delay_holds_cursor [OF g] lt(2)
  have b: "\<exists>sk. ticks 5 sim_env ?t = Some sk \<and> report_index sk = report_index ?t"
    by blast
  from delay_holds_cursor [OF h]
  have c: "\<exists>s'. ticks 2 sim_env ?s = Some s' \<and> report_index s' = report_index ?s + 1"
    by blast
  from delay_holds_cursor [OF g]
  have d: "\<exists>s'. ticks 6 sim_env ?t = Some s' \<and> report_index s' = report_index ?t + 1"
    by blast
  from a b c d show ?thesis
    unfolding i by (auto simp del: ticks.simps)
qed

text \<open>
  C10 as stated fails in the same way. The script is [Keyboard, Delay 9, End]. After 9
  ticks the delay has 2 ticks remaining; the line \<open>z\<close> CR puts the cursor back to 0
  with Delaying set, and one tick emits the Keyboard record again. The engine is now
  unpaused with the Delay of 9 at the cursor, and two ticks later the cursor has moved
  on to 2.
\<close>

theorem delay_9_stale_flag_counterexample:
  "map_option paused
     (then_ticks 1 (reset_mid_delay (kbd_bytes 2 7 @ delay_bytes 9 @ end_bytes) 9))
     = Some False
   \<and> map_option delaying
       (then_ticks 1 (reset_mid_delay (kbd_bytes 2 7 @ delay_bytes 9 @ end_bytes) 9))
     = Some True
   \<and> map_option report_index
       (then_ticks 1 (reset_mid_delay (kbd_bytes 2 7 @ delay_bytes 9 @ end_bytes) 9))
     = Some 1
   \<and> cursor_record
       (then_ticks 1 (reset_mid_delay (kbd_bytes 2 7 @ delay_bytes 9 @ end_bytes) 9))
     = Some [254, 9]
   \<and> map_option report_index
       (then_ticks 3 (reset_mid_delay (kbd_bytes 2 7 @ delay_bytes 9 @ end_bytes) 9))
     = Some 2"
  by (simp add: run_defs)

section \<open>Properties of the pattern generator\<close>

lemma store_at_Some: "j < length out \<Longrightarrow> store_at out j f = Some (out[j := f (out ! j)])"
  by (simp add: store_at_def)

lemma store_at_None: "\<not> j < length out \<Longrightarrow> store_at out j f = None"
  by (simp add: store_at_def)

lemma jiggle_loop_run:
  "n = nat (width - i) \<Longrightarrow> j + n \<le> length pb \<Longrightarrow>
   jiggle_loop dx width i j pb =
     Some (j + n, take j pb @ map (mouse_record dx) (take n (drop j pb)) @ drop (j + n) pb)"
proof (induction n arbitrary: i j pb)
  case 0
  then show ?case by (subst jiggle_loop.simps) simp
next
  case (Suc n)
  from Suc.prems have lt: "i < width" and n: "n = nat (width - (i + 1))" and j: "j < length pb"
    by auto
  let ?pb1 = "pb[j := mouse_record dx (pb ! j)]"
  have len: "(j + 1) + n \<le> length ?pb1" using Suc.prems by simp
  have step: "jiggle_loop dx width i j pb = jiggle_loop dx width (i + 1) (j + 1) ?pb1"
    using lt j by (subst jiggle_loop.simps) (simp add: store_at_Some)
  have "take (j + 1) ?pb1 = take j pb @ [mouse_record dx (pb ! j)]"
    using j by (simp add: take_Suc_conv_app_nth)
  moreover have "drop (j + 1) ?pb1 = drop (j + 1) pb" by simp
  moreover have "take (Suc n) (drop j pb) = pb ! j # take n (drop (j + 1) pb)"
    using j by (simp add: Cons_nth_drop_Suc [symmetric])
  ultimately show ?case
    using Suc.IH [OF n len] step by simp
qed

lemma jiggle_loop_overrun:
  "n = nat (width - i) \<Longrightarrow> j \<le> length pb \<Longrightarrow> length pb < j + n \<Longrightarrow>
   jiggle_loop dx width i j pb = None"
proof (induction n arbitrary: i j pb)
  case 0
  then show ?case by (subst jiggle_loop.simps) simp
next
  case (Suc n)
  from Suc.prems have lt: "i < width" and n: "n = nat (width - (i + 1))" by auto
  show ?case
  proof (cases "j < length pb")
    case True
    let ?pb1 = "pb[j := mouse_record dx (pb ! j)]"
    have "j + 1 \<le> length ?pb1" "length ?pb1 < (j + 1) + n" using Suc.prems True by simp_all
    from Suc.IH [OF n this] show ?thesis
      using lt True by (subst jiggle_loop.simps) (simp add: store_at_Some)
  next
    case False
    then show ?thesis using lt by (subst jiggle_loop.simps) (simp add: store_at_None)
  qed
qed


lemma add_mouse_jiggler_run:
  assumes "0 \<le> width" and "2 * nat width + 1 \<le> length pb"
  shows "add_mouse_jiggler width pb =
     Some (2 * nat width + 1,
           map (mouse_record 1) (take (nat width) pb)
           @ map (mouse_record (- 1)) (take (nat width) (drop (nat width) pb))
           @ set_id REPORT_ID_END (pb ! (2 * nat width)) # drop (2 * nat width + 1) pb)"
proof -
  define w where "w = nat width"
  define A where "A = map (mouse_record 1) (take w pb)"
  define B where "B = map (mouse_record (- 1)) (take w (drop w pb))"
  define y where "y = pb ! (w + w)"
  define ys where "ys = drop (w + w + 1) pb"
  have w: "w = nat (width - 0)" and wlen: "w + w + 1 \<le> length pb"
    using assms by (simp_all add: w_def)
  have lenA: "length A = w" and lenB: "length B = w"
    using wlen by (simp_all add: A_def B_def)
  have dr: "drop (w + w) pb = y # ys"
    using wlen by (simp add: y_def ys_def Cons_nth_drop_Suc)
  have l1: "jiggle_loop 1 width 0 0 pb = Some (w, A @ drop w pb)"
    using jiggle_loop_run [OF w, of 0 pb 1] wlen by (simp add: A_def)
  have "jiggle_loop (- 1) width 0 w (A @ drop w pb) =
          Some (w + w, take w (A @ drop w pb)
                 @ map (mouse_record (- 1)) (take w (drop w (A @ drop w pb)))
                 @ drop (w + w) (A @ drop w pb))"
    using wlen lenA by (intro jiggle_loop_run [OF w]) simp
  also have "take w (A @ drop w pb) = A" using lenA by simp
  also have "drop w (A @ drop w pb) = drop w pb" using lenA by simp
  also have "drop (w + w) (A @ drop w pb) = y # ys"
    using lenA dr by (simp add: add.commute)
  finally have l2: "jiggle_loop (- 1) width 0 w (A @ drop w pb) = Some (w + w, A @ B @ y # ys)"
    by (simp add: B_def)
  have st: "store_at (A @ B @ y # ys) (w + w) f = Some (A @ B @ f y # ys)" for f
    using lenA lenB by (simp add: store_at_def list_update_append nth_append)
  have "add_mouse_jiggler width pb = Some (w + w + 1, A @ B @ set_id REPORT_ID_END y # ys)"
    by (simp add: add_mouse_jiggler_def l1 l2 st)
  then show ?thesis
    by (simp add: A_def B_def y_def ys_def w_def mult_2)
qed


lemma mouse_fields_record: "mouse_fields (mouse_record dx r) = (REPORT_ID_MOUSE, 0, sint dx, 0, 0)"
  by (simp add: mouse_fields_def mouse_record_def set_field_def set_id_def mouse_buttons_def
        mouse_x_def mouse_y_def mouse_wheel_def)

lemma map_mouse_fields:
  "map mouse_fields (map (mouse_record dx) xs) = replicate (length xs) (REPORT_ID_MOUSE, 0, sint dx, 0, 0)"
  by (induction xs) (simp_all add: mouse_fields_record)

lemma sum_mouse_x:
  "(\<Sum>r\<leftarrow>map (mouse_record dx) xs. sint (padding r mouse_x)) = int (length xs) * sint dx"
  by (induction xs)
     (simp_all add: mouse_record_def set_field_def set_id_def mouse_x_def mouse_y_def
        mouse_wheel_def mouse_buttons_def algebra_simps)

text \<open>
  C8, as the code has it. For every width from 0 to 31 and whatever the 64-record
  scratch buffer held, the generator writes exactly 2 * width + 1 records: width
  Pointer records with X delta +1 and buttons, Y and wheel zero, then width Pointer
  records with X delta -1, then one End record; the records behind them are untouched
  and the signed X deltas sum to zero.
\<close>

theorem jiggler_records:
  assumes "0 \<le> width" and "width \<le> 31" and "length pb = 64"
  shows "\<exists>pb'. add_mouse_jiggler width pb = Some (nat (2 * width + 1), pb')
           \<and> length pb' = 64
           \<and> map mouse_fields (take (nat width) pb')
               = replicate (nat width) (REPORT_ID_MOUSE, 0, 1, 0, 0)
           \<and> map mouse_fields (take (nat width) (drop (nat width) pb'))
               = replicate (nat width) (REPORT_ID_MOUSE, 0, - 1, 0, 0)
           \<and> report_id (pb' ! nat (2 * width)) = REPORT_ID_END
           \<and> drop (nat (2 * width + 1)) pb' = drop (nat (2 * width + 1)) pb
           \<and> (\<Sum>r\<leftarrow>take (nat (2 * width)) pb'. sint (padding r mouse_x)) = 0"
proof -
  define w where "w = nat width"
  define A where "A = map (mouse_record 1) (take w pb)"
  define B where "B = map (mouse_record (- 1)) (take w (drop w pb))"
  define pb' where "pb' = A @ B @ set_id REPORT_ID_END (pb ! (2 * w)) # drop (2 * w + 1) pb"
  have wlen: "2 * w + 1 \<le> length pb" using assms by (simp add: w_def)
  have lenA: "length A = w" and lenB: "length B = w"
    using wlen by (simp_all add: A_def B_def)
  have run: "add_mouse_jiggler width pb = Some (2 * w + 1, pb')"
    using add_mouse_jiggler_run [OF assms(1)] wlen by (simp add: w_def pb'_def A_def B_def)
  have n: "nat (2 * width + 1) = 2 * w + 1" "nat (2 * width) = 2 * w"
    using assms(1) by (simp_all add: w_def nat_add_distrib nat_mult_distrib)
  have "length pb' = 64"
    using wlen lenA lenB assms(3) by (simp add: pb'_def)
  moreover have "map mouse_fields (take w pb') = replicate w (REPORT_ID_MOUSE, 0, 1, 0, 0)"
    using lenA wlen by (simp add: pb'_def A_def map_mouse_fields del: map_map)
  moreover have "map mouse_fields (take w (drop w pb')) = replicate w (REPORT_ID_MOUSE, 0, - 1, 0, 0)"
    using lenA lenB wlen by (simp add: pb'_def B_def map_mouse_fields del: map_map)
  moreover have "report_id (pb' ! (2 * w)) = REPORT_ID_END"
    using lenA lenB by (simp add: pb'_def nth_append set_id_def)
  moreover have "drop (2 * w + 1) pb' = drop (2 * w + 1) pb"
    using lenA lenB by (simp add: pb'_def)
  moreover have "(\<Sum>r\<leftarrow>take (2 * w) pb'. sint (padding r mouse_x)) = 0"
  proof -
    have "take (2 * w) pb' = A @ B" using lenA lenB by (simp add: pb'_def)
    then show ?thesis
      using wlen by (simp add: A_def B_def sum_mouse_x del: map_map)
  qed
  ultimately show ?thesis using run n w_def by auto
qed

theorem jiggler_records_witness:
  "\<exists>pb'. add_mouse_jiggler 30 (replicate 64 zero_report) = Some (61, pb')
     \<and> map mouse_fields (take 30 pb') = replicate 30 (REPORT_ID_MOUSE, 0, 1, 0, 0)
     \<and> map mouse_fields (take 30 (drop 30 pb')) = replicate 30 (REPORT_ID_MOUSE, 0, - 1, 0, 0)
     \<and> report_id (pb' ! 60) = REPORT_ID_END
     \<and> (\<Sum>r\<leftarrow>take 60 pb'. sint (padding r mouse_x)) = 0"
proof -
  have h: "(0::int) \<le> 30" "(30::int) \<le> 31" "length (replicate 64 zero_report) = 64"
    by simp_all
  from jiggler_records [OF h] show ?thesis by auto
qed

text \<open>
  C8 as stated, for every width, fails outside that range: a negative width writes one
  record (the End record), and width 32 fills the 64 records and has no room for End.
\<close>

theorem jiggler_width_counterexample:
  "map_option fst (add_mouse_jiggler (- 1) (replicate 64 zero_report)) = Some 1
   \<and> add_mouse_jiggler 32 (replicate 64 zero_report) = None"
proof
  show "map_option fst (add_mouse_jiggler (- 1) (replicate 64 zero_report)) = Some 1"
    by (simp add: add_mouse_jiggler_def jiggle_loop.simps store_at_def)
next
  let ?pb = "replicate 64 zero_report"
  have n: "(32::nat) = nat (32 - 0)" by simp
  have l1: "jiggle_loop 1 32 0 0 ?pb =
      Some (0 + 32, take 0 ?pb @ map (mouse_record 1) (take 32 (drop 0 ?pb)) @ drop (0 + 32) ?pb)"
    by (rule jiggle_loop_run [OF n]) simp
  let ?pb1 = "take 0 ?pb @ map (mouse_record 1) (take 32 (drop 0 ?pb)) @ drop (0 + 32) ?pb"
  have l2: "jiggle_loop (- 1) 32 0 32 ?pb1 =
      Some (32 + 32, take 32 ?pb1 @ map (mouse_record (- 1)) (take 32 (drop 32 ?pb1)) @ drop (32 + 32) ?pb1)"
    by (rule jiggle_loop_run [OF n]) simp
  show "add_mouse_jiggler 32 ?pb = None"
    using l1 l2 by (simp add: add_mouse_jiggler_def store_at_def)
qed

section \<open>Properties of the bytecode decoder\<close>

lemma word_low: "((ucast (lo :: byte) :: 16 word) OR push_bit 8 (ucast (hi :: byte))) AND 0xff = ucast lo"
proof -
  have "(0xff :: 16 word) = mask 8" by (simp add: mask_eq_exp_minus_1)
  then show ?thesis
    by (simp add: bit_eq_iff bit_simps) (auto simp: bit_simps dest: bit_imp_le_length)
qed

lemma word_high: "ucast (drop_bit 8 ((ucast (lo :: byte) :: 16 word) OR push_bit 8 (ucast (hi :: byte)))) = hi"
  by (auto simp: bit_eq_iff bit_simps dest: bit_imp_le_length)

lemma ucast_low: "(ucast (ucast (lo :: byte) :: 16 word) :: byte) = lo"
  by (auto simp: bit_eq_iff bit_simps dest: bit_imp_le_length)

lemma ucast_low_0: "((ucast (lo :: byte) :: 16 word) = 0) = (lo = 0)"
  by (metis ucast_low ucast_0)


lemma length_apply_writers [simp]: "length (apply_writers ws j out) = length out"
  by (induction ws arbitrary: j out) simp_all

lemma apply_writers_append:
  "apply_writers (ws @ vs) j out = apply_writers vs (j + length ws) (apply_writers ws j out)"
  by (induction ws arbitrary: j out) simp_all

lemma apply_writers_outside:
  "i < j \<or> j + length ws \<le> i \<Longrightarrow> apply_writers ws j out ! i = out ! i"
  by (induction ws arbitrary: j out) auto

lemma apply_writers_inside:
  "i < length ws \<Longrightarrow> j + length ws \<le> length out \<Longrightarrow>
   apply_writers ws j out ! (j + i) = (ws ! i) (out ! (j + i))"
proof (induction ws arbitrary: i j out)
  case Nil
  then show ?case by simp
next
  case (Cons f fs)
  show ?case
  proof (cases i)
    case 0
    then show ?thesis
      using Cons.prems by (simp add: apply_writers_outside)
  next
    case (Suc i')
    then show ?thesis
      using Cons.prems Cons.IH [of i' "j + 1" "out[j := f (out ! j)]"] by simp
  qed
qed

lemma word_low_0:
  "(((ucast (lo :: byte) :: 16 word) OR push_bit 8 (ucast (hi :: byte))) AND 0xff = 0) = (lo = 0)"
  by (simp add: word_low ucast_low_0)

lemma word_low_byte:
  "ucast (((ucast (lo :: byte) :: 16 word) OR push_bit 8 (ucast (hi :: byte))) AND 0xff) = lo"
  by (simp add: word_low ucast_low)

lemma ducky_loop_step:
  assumes "i < len" and "0 \<le> i" and "nat i + 1 < length buf"
  shows "ducky_loop buf len i j out =
     (if buf ! nat i = 0 then
        (case store_at out j (delay_record (buf ! (nat i + 1))) of
           None \<Rightarrow> None
         | Some out1 \<Rightarrow> ducky_loop buf len (i + 2) (j + 1) out1)
      else
        (case store_at out j (key_record (buf ! (nat i + 1)) (buf ! nat i)) of
           None \<Rightarrow> None
         | Some out1 \<Rightarrow>
             (case store_at out1 (j + 1) (key_record 0 0) of
                None \<Rightarrow> None
              | Some out2 \<Rightarrow> ducky_loop buf len (i + 2) (j + 2) out2)))"
  using assms
  by (subst ducky_loop.simps)
     (simp only: word_low_0 word_low_byte word_high Let_def if_True simp_thms)

lemma ducky_loop_run:
  "rest = drop k buf \<Longrightarrow> len = int k + 2 * int (length rest div 2) \<Longrightarrow>
   j + length (writers rest) \<le> length out \<Longrightarrow>
   ducky_loop buf len (int k) j out =
     Some (j + length (writers rest), apply_writers (writers rest) j out)"
proof (induction rest arbitrary: k j out rule: writers.induct)
  case (3 lo hi rest)
  have d0: "drop k buf = lo # hi # rest" using "3.prems"(1) by simp
  have d1: "drop (Suc k) buf = hi # rest"
    using d0 by (simp add: drop_Suc tl_drop [symmetric])
  have d2: "drop (Suc (Suc k)) buf = rest"
    using d1 by (simp add: drop_Suc [of "Suc k"] tl_drop [symmetric])
  have k: "k + 1 < length buf"
    using d1 by (cases "Suc k < length buf") simp_all
  have lo: "buf ! k = lo" using d0 by (rule nth_via_drop)
  have hi: "buf ! (k + 1) = hi" using d1 nth_via_drop [of "Suc k" buf hi rest] by simp
  have rest: "rest = drop (k + 2) buf" using d2 by simp
  have len: "len = int (k + 2) + 2 * int (length rest div 2)" and lt: "int k < len"
    using "3.prems"(2) by simp_all
  show ?case
  proof (cases "lo = 0")
    case True
    have j: "j < length out" "j + 1 + length (writers rest) \<le> length out"
      using "3.prems"(3) True by simp_all
    have "ducky_loop buf len (int k) j out =
            ducky_loop buf len (int k + 2) (j + 1) (out[j := delay_record hi (out ! j)])"
      using k lo hi lt True j
      by (subst ducky_loop_step) (simp_all add: store_at_Some)
    also have "\<dots> = Some (j + 1 + length (writers rest),
                  apply_writers (writers rest) (j + 1) (out[j := delay_record hi (out ! j)]))"
      using j "3.IH" [OF rest len, of "j + 1" "out[j := delay_record hi (out ! j)]"]
      by (simp add: add.commute)
    finally show ?thesis using True by simp
  next
    case False
    have j: "j < length out" "j + 1 < length out" "j + 2 + length (writers rest) \<le> length out"
      using "3.prems"(3) False by simp_all
    let ?o1 = "out[j := key_record hi lo (out ! j)]"
    let ?o2 = "?o1[j + 1 := key_record 0 0 (?o1 ! (j + 1))]"
    have "ducky_loop buf len (int k) j out = ducky_loop buf len (int k + 2) (j + 2) ?o2"
      using k lo hi lt False j
      by (subst ducky_loop_step) (simp_all add: store_at_Some)
    also have "\<dots> = Some (j + 2 + length (writers rest), apply_writers (writers rest) (j + 2) ?o2)"
      using j "3.IH" [OF rest len, of "j + 2" ?o2]
      by (simp add: add.commute)
    finally show ?thesis using False by (simp add: numeral_2_eq_2)
  qed
next
  case 1
  from "1.prems"(2) have "len = int k" by simp
  then show ?case by (subst ducky_loop.simps) simp
next
  case (2 v)
  from "2.prems"(2) have "len = int k" by simp
  then show ?case by (subst ducky_loop.simps) simp
qed

lemma decode_writers:
  "list_all2 (\<lambda>item f. \<forall>r. holds item (f r)) (decodeBytecode buf)
     (writers buf @ [set_id REPORT_ID_END])"
  by (induction buf rule: writers.induct)
     (simp_all add: delay_record_def key_record_def set_field_def set_id_def
        keyboard_modifiers_def keyboard_reserved_def keyboard_keys_down_def keyboard_leds_def
        REPORT_ID_KEYBOARD_def REPORT_ID_DELAY_def REPORT_ID_END_def)

lemma decode_count:
  "length (decodeBytecode buf) = 2 * keystroke_words buf + delay_words buf + 1"
  by (induction buf rule: writers.induct) simp_all

lemma convert_ducky_binary_run:
  assumes "length (writers buf) < length out"
  shows "convert_ducky_binary buf (int (length buf)) out =
           Some (length (writers buf) + 1,
                 apply_writers (writers buf @ [set_id REPORT_ID_END]) 0 out)"
proof -
  define len' where
    "len' = (if int (length buf) mod 2 \<noteq> 0 then int (length buf) - 1 else int (length buf))"
  have len: "len' = int 0 + 2 * int (length (drop 0 buf) div 2)"
    unfolding len'_def by simp presburger
  have loop: "ducky_loop buf len' (int 0) 0 out =
          Some (0 + length (writers (drop 0 buf)), apply_writers (writers (drop 0 buf)) 0 out)"
    using assms by (intro ducky_loop_run [OF refl len]) simp
  have "convert_ducky_binary buf (int (length buf)) out =
          (case ducky_loop buf len' (int 0) 0 out of
             None \<Rightarrow> None
           | Some (j, out1) \<Rightarrow>
               (case store_at out1 j (set_id REPORT_ID_END) of
                  None \<Rightarrow> None
                | Some out2 \<Rightarrow> Some (j + 1, out2)))"
    by (simp add: convert_ducky_binary_def len'_def Let_def)
  also have "\<dots> = Some (length (writers buf) + 1,
                 apply_writers (writers buf @ [set_id REPORT_ID_END]) 0 out)"
    unfolding loop using assms by (simp add: store_at_def apply_writers_append)
  finally show ?thesis .
qed

text \<open>
  C2. For every input byte sequence and every output array with room for the records,
  \<open>convert_ducky_binary\<close> returns the number of records of the decoding above and
  has written exactly them from index 0 on, in order: two Keyboard records for a word
  with nonzero low byte (press with modifiers the high byte, first key slot the low
  byte, reserved 1; release all zero, reserved 1), one Delay record with the high byte
  for a word with low byte zero, nothing for a trailing odd byte, and one End record
  last. So k keystroke words and d delay words give 2 * k + d + 1 records.
\<close>

theorem bytecode_records:
  assumes "length (decodeBytecode buf) \<le> length out"
  shows "\<exists>out'. convert_ducky_binary buf (int (length buf)) out
                   = Some (length (decodeBytecode buf), out')
           \<and> list_all2 holds (decodeBytecode buf) (take (length (decodeBytecode buf)) out')
           \<and> drop (length (decodeBytecode buf)) out' = drop (length (decodeBytecode buf)) out
           \<and> length out' = length out
           \<and> length (decodeBytecode buf) = 2 * keystroke_words buf + delay_words buf + 1"
proof -
  define ws where "ws = writers buf @ [set_id REPORT_ID_END]"
  define out' where "out' = apply_writers ws 0 out"
  have rel: "list_all2 (\<lambda>item f. \<forall>r. holds item (f r)) (decodeBytecode buf) ws"
    unfolding ws_def by (rule decode_writers)
  then have n: "length (decodeBytecode buf) = length ws"
    by (rule list_all2_lengthD)
  have cap: "length ws \<le> length out" using assms n by simp
  have run: "convert_ducky_binary buf (int (length buf)) out = Some (length ws, out')"
    using convert_ducky_binary_run [of buf out] cap by (simp add: ws_def out'_def)
  have "list_all2 holds (decodeBytecode buf) (take (length ws) out')"
  proof (rule list_all2_all_nthI)
    show "length (decodeBytecode buf) = length (take (length ws) out')"
      using n cap by (simp add: out'_def)
  next
    fix i assume i: "i < length (decodeBytecode buf)"
    then have "out' ! (0 + i) = (ws ! i) (out ! (0 + i))"
      unfolding out'_def using n cap by (intro apply_writers_inside) simp_all
    moreover have "holds (decodeBytecode buf ! i) ((ws ! i) (out ! i))"
      using rel i by (simp add: list_all2_conv_all_nth)
    ultimately show "holds (decodeBytecode buf ! i) (take (length ws) out' ! i)"
      using i n by simp
  qed
  moreover have "drop (length ws) out' = drop (length ws) out"
    by (rule nth_equalityI) (simp_all add: out'_def apply_writers_outside)
  moreover have "length out' = length out" by (simp add: out'_def)
  ultimately show ?thesis
    using run n decode_count [of buf] by auto
qed

theorem bytecode_records_witness:
  "\<exists>out'. convert_ducky_binary [0x07, 0x02, 0x00, 0x05, 0x09] 5 (replicate 64 zero_report)
             = Some (4, out')
     \<and> list_all2 holds [KeyPress 0x02 0x07, KeyRelease, DelayFor 0x05, EndMark] (take 4 out')"
proof -
  have h: "length (decodeBytecode [0x07, 0x02, 0x00, 0x05, 0x09])
             \<le> length (replicate 64 zero_report)"
    by simp
  from bytecode_records [OF h] obtain out'
    where r: "convert_ducky_binary [0x07, 0x02, 0x00, 0x05, 0x09]
                (int (length [0x07 :: byte, 0x02, 0x00, 0x05, 0x09])) (replicate 64 zero_report)
              = Some (length (decodeBytecode [0x07, 0x02, 0x00, 0x05, 0x09]), out')"
      and a: "list_all2 holds (decodeBytecode [0x07, 0x02, 0x00, 0x05, 0x09])
                (take (length (decodeBytecode [0x07, 0x02, 0x00, 0x05, 0x09])) out')"
    by blast
  have n: "length (decodeBytecode [0x07, 0x02, 0x00, 0x05, 0x09]) = 4"
    "int (length [0x07 :: byte, 0x02, 0x00, 0x05, 0x09]) = 5"
    by simp_all
  have d: "decodeBytecode [0x07, 0x02, 0x00, 0x05, 0x09]
             = [KeyPress 0x02 0x07, KeyRelease, DelayFor 0x05, EndMark]"
    by simp
  from r have "convert_ducky_binary [0x07, 0x02, 0x00, 0x05, 0x09] 5 (replicate 64 zero_report)
                 = Some (4, out')"
    by (simp only: n)
  moreover from a
  have "list_all2 holds [KeyPress 0x02 0x07, KeyRelease, DelayFor 0x05, EndMark] (take 4 out')"
    using n(1) by (simp only: d)
  ultimately show ?thesis by blast
qed

section \<open>Properties of the command processor\<close>

text \<open>
  C9. The reset command \<open>z\<close> sets the cursor index to 0 whatever it was and replies
  with the empty string. A line whose first byte is none of the ten command characters
  gets the invalid-command reply and leaves the whole machine state as it was: the
  cursor index, Paused, SingleStep, Delaying and the flash.
\<close>

theorem dispatch_reset_and_invalid:
  "process_serial_command e (0x7A # hex) len s = Some ([], s\<lparr>report_index := 0\<rparr>)
   \<and> (c \<notin> {0x76, 0x3F, 0x77, 0x64, 0x6A, 0x72, 0x40, 0x70, 0x73, 0x7A} \<longrightarrow>
        process_serial_command e (c # hex) len s
          = Some (''invalid command, try ? for help'', s))"
  by (simp add: process_serial_command_def)

theorem dispatch_reset_and_invalid_witness:
  "process_serial_command sim_env [0x7A, 0x0D] 2 ((running end_bytes)\<lparr>report_index := 5\<rparr>)
     = Some ([], (running end_bytes)\<lparr>report_index := 0\<rparr>)
   \<and> process_serial_command sim_env [0x78, 0x0D] 2 (running end_bytes)
     = Some (''invalid command, try ? for help'', running end_bytes)"
  using dispatch_reset_and_invalid
    [of sim_env "[0x0D]" 2 "(running end_bytes)\<lparr>report_index := 5\<rparr>" "0x78"]
    dispatch_reset_and_invalid [of sim_env "[0x0D]" 2 "running end_bytes" "0x78"]
  by simp

lemma unhexify_numeral:
  "unhexify (h # l # hex) (numeral k) =
     (case unhexify hex (pred_numeral k) of
        None \<Rightarrow> None
      | Some bs \<Rightarrow> Some ((push_bit 4 (unhex_digit h) OR unhex_digit l) # bs))"
  by (simp add: numeral_eq_Suc)

text \<open>
  C1 at the line \<open>w01020304\<close> CR, typed into the machine after reset with an erased
  medium. The payload is eight characters, four bytes. The callback passes the length
  of the whole line, 10; \<open>unhexify\<close> decodes ten bytes from twenty characters (the
  payload, the CR and eleven bytes behind the line), and \<open>flash_program_data\<close> gets
  the length 5 and programs two words: the four payload bytes and four more.
\<close>

theorem raw_write_programs_past_payload:
  "stored_bytes
     (usbuart_usb_out_cb sim_env [0x77, 0x30, 0x31, 0x30, 0x32, 0x30, 0x33, 0x30, 0x34, 0x0D]
        (boot (sim_holding [] [])))
   = Some [0x01, 0x02, 0x03, 0x04, 0xE9, 0xB9, 0xB9, 0xB9, 0xFF, 0xFF, 0xFF, 0xFF]"
  by (simp add: stored_bytes_def usbuart_usb_out_cb_def boot_def typing_buf_zeros reply_put_def
        process_serial_command_def unhexify_numeral unhex_digit_def Let_def
        flash_program_data_def flash_program_loop.simps input_word_def nth_append
        list_update_append flash_reply_def prompt_def
        sim_env_def sim_holding_def sim_erase_page_def sim_program_word_def
        sim_status_def sim_flip_def read32_def le32_def word_bytes_def FLASH_PAGE_SIZE_def
        FLASH_WRONG_DATA_WRITTEN_def RESULT_OK_def)

section \<open>Properties of the script store\<close>

lemma flash_program_loop_run:
  assumes "num \<le> 65532" and "n = (num + 3) div 4" and "4 * n \<le> length input_data"
  shows "d = n - j \<Longrightarrow> j \<le> n \<Longrightarrow>
         flash_program_loop e a input_data num (4 * j) (programmed e a input_data j m)
           = Some (program_outcome e a input_data m [j..<n] n)"
proof (induction d arbitrary: j)
  case 0
  then have "j = n" by simp
  then have "\<not> 4 * j < num" using assms(2) by simp
  then show ?case
    using \<open>j = n\<close> by (subst flash_program_loop.simps) (simp add: program_outcome_def)
next
  case (Suc d)
  then have j: "j < n" and d: "d = n - Suc j" by simp_all
  have lt: "4 * j < num" using j assms(2) by simp
  have w: "input_word input_data (4 * j) = Some (word_at input_data j)"
    using j assms(3) by (simp add: input_word_def word_at_def)
  have nxt: "(4 * j + 4) mod 65536 = 4 * Suc j" using lt assms(1) by simp
  have up: "[j..<n] = j # [Suc j..<n]" using j by (simp add: upt_conv_Cons)
  let ?m1 = "programmed e a input_data (Suc j) m"
  show ?case
  proof (cases "chunk_ok e a input_data m j")
    case True
    have "flash_program_loop e a input_data num (4 * j) (programmed e a input_data j m)
            = flash_program_loop e a input_data num (4 * Suc j) ?m1"
      using lt w nxt True
      by (subst flash_program_loop.simps) (simp add: chunk_ok_def Let_def)
    also have "\<dots> = Some (program_outcome e a input_data m [Suc j..<n] n)"
      using j by (intro Suc.IH d) simp
    finally show ?thesis using True by (simp add: up program_outcome_def)
  next
    case False
    then show ?thesis
      using lt w
      by (subst flash_program_loop.simps) (auto simp: up program_outcome_def chunk_ok_def Let_def)
  qed
qed

text \<open>
  The result of \<open>flash_program_data\<close> on every medium, for a length of at most 65532
  bytes and an input buffer that covers the last word. If the status after the erase is
  not the success flag, that raw status is returned and nothing is programmed.
  Otherwise the words are programmed in order up to the first one that leaves another
  status or reads back differently, and no further: the result is that raw status, or
  0x80 when the status was success and the read-back differs. With no such word every
  word is programmed and the result is 0.
\<close>

theorem flash_program_data_result:
  assumes "unat num_elements \<le> 65532"
    and "n = (unat num_elements + 3) div 4"
    and "4 * n \<le> length input_data"
  shows "flash_program_data e a input_data num_elements m =
           Some (if flash_get_status_flags e (erased e a m) \<noteq> FLASH_SR_EOP e
                 then (flash_get_status_flags e (erased e a m), erased e a m)
                 else program_outcome e a input_data (erased e a m) [0..<n] n)"
  using flash_program_loop_run [OF assms, of n 0 e a "erased e a m"]
  by (simp add: flash_program_data_def erased_def Let_def)


lemma upt_2: "[0..<2] = [0, Suc 0]"
  by (simp add: upt_conv_Cons)

lemmas flash_sim_defs = sim_env_def sim_holding_def sim_erase_page_def sim_program_word_def
  sim_status_def sim_flip_def erased_def program_outcome_def chunk_ok_def word_at_def
  read32_def le32_def word_bytes_def FLASH_PAGE_SIZE_def FLASH_WRONG_DATA_WRITTEN_def
  RESULT_OK_def

theorem flash_program_data_result_witness:
  "map_option fst
     (flash_program_data sim_env 0x08002000 [1, 2, 3, 4, 5, 6, 7, 8] 8
        (sim_holding [] [(0x20, 0), (0x20, 0), (0x20, 1)])) = Some FLASH_WRONG_DATA_WRITTEN
   \<and> map_option fst
       (flash_program_data sim_env 0x08002000 [1, 2, 3, 4, 5, 6, 7, 8] 8
          (sim_holding [] [(0x20, 0), (0x10, 0)])) = Some 0x10
   \<and> map_option fst
       (flash_program_data sim_env 0x08002000 [1, 2, 3, 4, 5, 6, 7, 8] 8
          (sim_holding [] [])) = Some RESULT_OK"
proof -
  have h: "unat (8 :: 16 word) \<le> 65532" "2 = (unat (8 :: 16 word) + 3) div 4"
    "4 * 2 \<le> length [1 :: byte, 2, 3, 4, 5, 6, 7, 8]"
    by simp_all
  show ?thesis
    unfolding flash_program_data_result [OF h]
    by (simp add: flash_sim_defs upt_2)
qed

text \<open>
  C7 on a medium that reports the raw status 0. The erase and the first word succeed;
  the second word is stored with its low byte inverted and leaves status 0. The
  function returns that status, which is the value of \<open>RESULT_OK\<close>, although the
  second word reads back 0x080706FA for the input 0x08070605 and was never compared.
\<close>

theorem flash_status_zero_returns_ok:
  "map_option fst
     (flash_program_data sim_env 0x08002000 [1, 2, 3, 4, 5, 6, 7, 8] 8
        (sim_holding [] [(0x20, 0), (0x20, 0), (0, 0xFF)])) = Some RESULT_OK
   \<and> sim_result_word 0x08002004
       (flash_program_data sim_env 0x08002000 [1, 2, 3, 4, 5, 6, 7, 8] 8
          (sim_holding [] [(0x20, 0), (0x20, 0), (0, 0xFF)])) = Some 0x080706FA
   \<and> input_word [1, 2, 3, 4, 5, 6, 7, 8] 4 = Some 0x08070605"
  by (simp add: flash_program_data_def flash_program_loop.simps input_word_def
        sim_result_word_def flash_sim_defs Let_def)

end
